theory Spec2Isabelle
  imports Main
begin

section \<open>Strings\<close>

text \<open>
  A JavaScript string is modelled by \<^typ>\<open>string\<close>, the list of the bytes of its UTF-8
  form. Every test the component makes on a string looks for ASCII characters or for
  white space, and both read the same in UTF-8 as in the UTF-16 of JavaScript: a byte
  below 128 is an ASCII character, and the bytes of another code point are all 128 or
  above.
\<close>

definition ascii_lower :: string where
  "ascii_lower = ''abcdefghijklmnopqrstuvwxyz''"

definition ascii_upper :: string where
  "ascii_upper = ''ABCDEFGHIJKLMNOPQRSTUVWXYZ''"

definition isAsciiLetter :: "char \<Rightarrow> bool" where
  "isAsciiLetter c = (c \<in> set ascii_lower \<or> c \<in> set ascii_upper)"

text \<open>\<^verbatim>\<open>String.prototype.startsWith\<close>\<close>

definition startsWith :: "string \<Rightarrow> string \<Rightarrow> bool" where
  "startsWith s p = (take (length p) s = p)"

definition endsWith :: "string \<Rightarrow> string \<Rightarrow> bool" where
  "endsWith s p = (length p \<le> length s \<and> drop (length s - length p) s = p)"

text \<open>
  \<^verbatim>\<open>String.prototype.toLowerCase\<close>. It is exact on ASCII and on the two other code points
  whose lower case holds an ASCII letter: U+212A (Kelvin sign, to \<^verbatim>\<open>k\<close>) and U+0130
  (to \<^verbatim>\<open>i\<close> and U+0307). Every other code point beyond ASCII is kept: its lower case lies
  beyond ASCII too, and the component only compares lower-cased names with ASCII literals.
\<close>

definition lowerAscii :: "char \<Rightarrow> char" where
  "lowerAscii c = (case map_of (zip ascii_upper ascii_lower) c of Some l \<Rightarrow> l | None \<Rightarrow> c)"

fun toLowerCase :: "string \<Rightarrow> string" where
  "toLowerCase [] = []"
| "toLowerCase (c # s) =
     (if c = CHR 0xE2 \<and> take 2 s = [CHR 0x84, CHR 0xAA] then CHR ''k'' # toLowerCase (drop 2 s)
      else if c = CHR 0xC4 \<and> take 1 s = [CHR 0xB0]
        then CHR ''i'' # CHR 0xCC # CHR 0x87 # toLowerCase (drop 1 s)
      else lowerAscii c # toLowerCase s)"

text \<open>
  \<^verbatim>\<open>String.prototype.trim\<close> removes the WhiteSpace and LineTerminator code points of
  ECMAScript from both ends: U+0009 to U+000D, U+0020, U+00A0, U+1680, U+2000 to U+200A,
  U+2028, U+2029, U+202F, U+205F, U+3000 and U+FEFF, here in UTF-8.
\<close>

definition whiteSpace :: "string list" where
  "whiteSpace =
     [[CHR 0x09], [CHR 0x0A], [CHR 0x0B], [CHR 0x0C], [CHR 0x0D], [CHR 0x20],
      [CHR 0xC2, CHR 0xA0], [CHR 0xE1, CHR 0x9A, CHR 0x80],
      [CHR 0xE2, CHR 0x80, CHR 0x80], [CHR 0xE2, CHR 0x80, CHR 0x81],
      [CHR 0xE2, CHR 0x80, CHR 0x82], [CHR 0xE2, CHR 0x80, CHR 0x83],
      [CHR 0xE2, CHR 0x80, CHR 0x84], [CHR 0xE2, CHR 0x80, CHR 0x85],
      [CHR 0xE2, CHR 0x80, CHR 0x86], [CHR 0xE2, CHR 0x80, CHR 0x87],
      [CHR 0xE2, CHR 0x80, CHR 0x88], [CHR 0xE2, CHR 0x80, CHR 0x89],
      [CHR 0xE2, CHR 0x80, CHR 0x8A], [CHR 0xE2, CHR 0x80, CHR 0xA8],
      [CHR 0xE2, CHR 0x80, CHR 0xA9], [CHR 0xE2, CHR 0x80, CHR 0xAF],
      [CHR 0xE2, CHR 0x81, CHR 0x9F], [CHR 0xE3, CHR 0x80, CHR 0x80],
      [CHR 0xEF, CHR 0xBB, CHR 0xBF]]"

function trimStart :: "string \<Rightarrow> string" where
  "trimStart s =
     (case find (startsWith s) whiteSpace of
        None \<Rightarrow> s
      | Some w \<Rightarrow> trimStart (drop (length w) s))"
  by pat_completeness auto
termination
proof (relation "measure length")
  fix s w
  assume "find (startsWith s) whiteSpace = Some w"
  then have w: "w \<in> set whiteSpace" and "startsWith s w"
    by (auto simp: find_Some_iff)
  then have "length (take (length w) s) = length w"
    by (simp add: startsWith_def)
  moreover from w have "w \<noteq> []"
    by (auto simp: whiteSpace_def)
  ultimately have "w \<noteq> []" and "length w \<le> length s"
    by simp_all
  then show "(drop (length w) s, s) \<in> measure length" by (cases w) auto
qed simp

function trimEnd :: "string \<Rightarrow> string" where
  "trimEnd s =
     (case find (endsWith s) whiteSpace of
        None \<Rightarrow> s
      | Some w \<Rightarrow> trimEnd (take (length s - length w) s))"
  by pat_completeness auto
termination
proof (relation "measure length")
  fix s w
  assume "find (endsWith s) whiteSpace = Some w"
  then have w: "w \<in> set whiteSpace" and "endsWith s w"
    by (auto simp: find_Some_iff)
  moreover from w have "w \<noteq> []"
    by (auto simp: whiteSpace_def)
  ultimately have "w \<noteq> []" and "length w \<le> length s"
    by (simp_all add: endsWith_def)
  then show "(take (length s - length w) s, s) \<in> measure length" by (cases w) auto
qed simp

declare trimStart.simps [simp del] trimEnd.simps [simp del]

definition trim :: "string \<Rightarrow> string" where
  "trim s = trimEnd (trimStart s)"

section \<open>Regular expressions, as far as the classifier uses them\<close>

text \<open>
  The regular expression of \<^verbatim>\<open>looksLikeHtml\<close> is a sequence of single-character atoms,
  each taken once, optionally (\<^verbatim>\<open>?\<close>) or any number of times (\<^verbatim>\<open>*\<close>).
  \<^verbatim>\<open>[a-z]\<close> under the flag \<^verbatim>\<open>i\<close> accepts the ASCII letters of both cases and no
  other character; \<^verbatim>\<open>[\s\S]\<close> accepts every character.
\<close>

datatype atom = Literal char | LetterRangeI | AnyChar

datatype piece = Once atom | Opt atom | Star atom

type_synonym regex = "piece list"

fun accepts :: "atom \<Rightarrow> char \<Rightarrow> bool" where
  "accepts (Literal a) c = (c = a)"
| "accepts LetterRangeI c = isAsciiLetter c"
| "accepts AnyChar c = True"

text \<open>
  \<open>matchHere r s\<close>: the pattern matches a prefix of \<open>s\<close>. A quantified atom first takes
  the character and then, on failure, backtracks to taking none.
\<close>

fun matchHere :: "regex \<Rightarrow> string \<Rightarrow> bool" where
  "matchHere [] s = True"
| "matchHere (Once a # r) [] = False"
| "matchHere (Once a # r) (c # s) = (accepts a c \<and> matchHere r s)"
| "matchHere (Opt a # r) [] = matchHere r []"
| "matchHere (Opt a # r) (c # s) = ((accepts a c \<and> matchHere r s) \<or> matchHere r (c # s))"
| "matchHere (Star a # r) [] = matchHere r []"
| "matchHere (Star a # r) (c # s) =
     ((accepts a c \<and> matchHere (Star a # r) s) \<or> matchHere r (c # s))"

text \<open>\<^verbatim>\<open>RegExp.prototype.test\<close>: a match starting at some position of the string.\<close>

fun test :: "regex \<Rightarrow> string \<Rightarrow> bool" where
  "test r [] = matchHere r []"
| "test r (c # s) = (matchHere r (c # s) \<or> test r s)"

section \<open>The content classifier\<close>

text \<open>\<^verbatim>\<open>/<\/?[a-z][\s\S]*>/i\<close>\<close>

definition tagPattern :: regex where
  "tagPattern =
     [Once (Literal CHR ''<''), Opt (Literal CHR ''/''), Once LetterRangeI,
      Star AnyChar, Once (Literal CHR ''>'')]"

definition looksLikeHtml :: "string \<Rightarrow> bool" where
  "looksLikeHtml s = test tagPattern s"

section \<open>The document object model\<close>

text \<open>
  \<^verbatim>\<open>sanitizeHtml\<close> works on the objects of a browser document: it holds references to
  nodes, and changes a node through its parent. Nodes therefore live in a store, under
  addresses; a reference is an address. The fields of a node are the properties the
  code reads: \<^verbatim>\<open>nodeType\<close>, \<^verbatim>\<open>tagName\<close> (the \<^verbatim>\<open>nodeName\<close> of an element, in upper case
  for an HTML element), \<^verbatim>\<open>attributes\<close> (the name and the text of each \<^verbatim>\<open>Attr\<close>, in
  order), the character data of a text or comment node, \<^verbatim>\<open>childNodes\<close> and
  \<^verbatim>\<open>parentNode\<close>.
\<close>

datatype nodeType = ELEMENT_NODE | TEXT_NODE | COMMENT_NODE | DOCUMENT_NODE | DOCUMENT_TYPE_NODE

type_synonym attr = "string \<times> string"

record node =
  nodeType :: nodeType
  nodeName :: string
  attributes :: "attr list"
  data :: string
  childNodes :: "nat list"
  parentNode :: "nat option"

record dom =
  nodes :: "nat \<rightharpoonup> node"
  fresh :: nat

text \<open>
  A tree of nodes as a value: what the parser builds, and what the serializer writes.
\<close>

datatype tree =
    Document "tree list"
  | DocumentType string
  | Element string "attr list" "tree list"
  | Text string
  | Comment string

text \<open>
  What the browser supplies and the repository does not hold:
  \<^verbatim>\<open>new DOMParser().parseFromString(input, type)\<close>, here the tree of the document it
  builds, and the HTML fragment serialization behind \<^verbatim>\<open>innerHTML\<close>, here a function of
  the children it writes. Either may throw (\<open>Inl\<close>).
\<close>

datatype error = TypeError | HierarchyRequestError | Thrown string

record platform =
  parseFromString :: "string \<Rightarrow> string \<Rightarrow> error + tree"
  serializeFragment :: "tree list \<Rightarrow> error + string"

subsection \<open>Building the objects of a parsed document\<close>

definition emptyDom :: dom where
  "emptyDom = \<lparr>nodes = Map.empty, fresh = 0\<rparr>"

definition leaf :: "nodeType \<Rightarrow> string \<Rightarrow> string \<Rightarrow> nat option \<Rightarrow> node" where
  "leaf ty nm d p =
     \<lparr>nodeType = ty, nodeName = nm, attributes = [], data = d, childNodes = [],
      parentNode = p\<rparr>"

definition inner :: "nodeType \<Rightarrow> string \<Rightarrow> attr list \<Rightarrow> nat list \<Rightarrow> nat option \<Rightarrow> node" where
  "inner ty nm as cs p =
     \<lparr>nodeType = ty, nodeName = nm, attributes = as, data = [], childNodes = cs,
      parentNode = p\<rparr>"

definition alloc :: "node \<Rightarrow> dom \<Rightarrow> nat \<times> dom" where
  "alloc nd h = (fresh h, \<lparr>nodes = (nodes h)(fresh h \<mapsto> nd), fresh = Suc (fresh h)\<rparr>)"

text \<open>
  \<open>load p t h\<close> creates the node objects of the tree \<open>t\<close> under the parent \<open>p\<close>, in
  document order, and returns the address of the root of \<open>t\<close>.
\<close>

fun load :: "nat option \<Rightarrow> tree \<Rightarrow> dom \<Rightarrow> nat \<times> dom"
  and loadAll :: "nat option \<Rightarrow> tree list \<Rightarrow> dom \<Rightarrow> nat list \<times> dom"
where
  "load p (Text d) h = alloc (leaf TEXT_NODE ''#text'' d p) h"
| "load p (Comment d) h = alloc (leaf COMMENT_NODE ''#comment'' d p) h"
| "load p (DocumentType nm) h = alloc (leaf DOCUMENT_TYPE_NODE nm [] p) h"
| "load p (Element nm as ts) h =
     (let (n, h1) = alloc (inner ELEMENT_NODE nm as [] p) h;
          (cs, h2) = loadAll (Some n) ts h1
      in (n, h2\<lparr>nodes := (nodes h2)(n \<mapsto> inner ELEMENT_NODE nm as cs p)\<rparr>))"
| "load p (Document ts) h =
     (let (n, h1) = alloc (inner DOCUMENT_NODE ''#document'' [] [] p) h;
          (cs, h2) = loadAll (Some n) ts h1
      in (n, h2\<lparr>nodes := (nodes h2)(n \<mapsto> inner DOCUMENT_NODE ''#document'' [] cs p)\<rparr>))"
| "loadAll p [] h = ([], h)"
| "loadAll p (t # ts) h =
     (let (c, h1) = load p t h;
          (cs, h2) = loadAll p ts h1
      in (c # cs, h2))"

subsection \<open>Reading the store\<close>

text \<open>
  \<open>subtree k h n\<close> is the tree below the node \<open>n\<close>. The store can hold any graph, so the
  descent is bounded by \<open>k\<close>; \<open>None\<close> is a descent that the bound cuts, or that meets an
  address with no node.
\<close>

fun subtree :: "nat \<Rightarrow> dom \<Rightarrow> nat \<Rightarrow> tree option" where
  "subtree 0 h n = None"
| "subtree (Suc k) h n =
     (case nodes h n of
        None \<Rightarrow> None
      | Some nd \<Rightarrow>
          (case nodeType nd of
             TEXT_NODE \<Rightarrow> Some (Text (data nd))
           | COMMENT_NODE \<Rightarrow> Some (Comment (data nd))
           | DOCUMENT_TYPE_NODE \<Rightarrow> Some (DocumentType (nodeName nd))
           | ELEMENT_NODE \<Rightarrow>
               map_option (Element (nodeName nd) (attributes nd))
                 (those (map (subtree k h) (childNodes nd)))
           | DOCUMENT_NODE \<Rightarrow>
               map_option Document (those (map (subtree k h) (childNodes nd)))))"

definition childNodesOf :: "dom \<Rightarrow> nat \<Rightarrow> nat list" where
  "childNodesOf h n = (case nodes h n of None \<Rightarrow> [] | Some nd \<Rightarrow> childNodes nd)"

definition childTrees :: "dom \<Rightarrow> nat \<Rightarrow> tree list option" where
  "childTrees h n =
     (case nodes h n of
        None \<Rightarrow> None
      | Some nd \<Rightarrow> those (map (subtree (fresh h) h) (childNodes nd)))"

text \<open>
  The text of the Text nodes of a tree, in tree order; \<^verbatim>\<open>el.textContent\<close> of an element
  is that of its children, one after the other.
\<close>

fun descendantText :: "tree \<Rightarrow> string" where
  "descendantText (Text d) = d"
| "descendantText (Comment d) = []"
| "descendantText (DocumentType nm) = []"
| "descendantText (Element nm as ts) = concat (map descendantText ts)"
| "descendantText (Document ts) = concat (map descendantText ts)"

definition textContent :: "dom \<Rightarrow> nat \<Rightarrow> string option" where
  "textContent h el = map_option (\<lambda>ts. concat (map descendantText ts)) (childTrees h el)"

text \<open>\<^verbatim>\<open>el.innerHTML\<close>: the serialization of the children of \<open>el\<close>.\<close>

definition innerHTML :: "platform \<Rightarrow> dom \<Rightarrow> nat \<Rightarrow> (error + string) option" where
  "innerHTML pf h el = map_option (serializeFragment pf) (childTrees h el)"

text \<open>
  \<^verbatim>\<open>doc.body\<close>: the first child of the \<^verbatim>\<open>html\<close> element that is a \<^verbatim>\<open>body\<close> or a
  \<^verbatim>\<open>frameset\<close> element, and \<^verbatim>\<open>null\<close> (\<open>None\<close>) when there is none. The \<^verbatim>\<open>html\<close> element
  is the element child of the document, when that is an \<^verbatim>\<open>html\<close> element. These are
  HTML elements, whose \<^verbatim>\<open>tagName\<close> is in upper case.
\<close>

definition isElement :: "dom \<Rightarrow> string list option \<Rightarrow> nat \<Rightarrow> bool" where
  "isElement h names n =
     (case nodes h n of
        None \<Rightarrow> False
      | Some nd \<Rightarrow>
          nodeType nd = ELEMENT_NODE \<and>
          (case names of None \<Rightarrow> True | Some nms \<Rightarrow> nodeName nd \<in> set nms))"

definition documentElement :: "dom \<Rightarrow> nat \<Rightarrow> nat option" where
  "documentElement h doc =
     (case nodes h doc of
        None \<Rightarrow> None
      | Some d \<Rightarrow>
          if nodeType d = DOCUMENT_NODE then find (isElement h None) (childNodes d)
          else None)"

definition body :: "dom \<Rightarrow> nat \<Rightarrow> nat option" where
  "body h doc =
     (case documentElement h doc of
        None \<Rightarrow> None
      | Some e \<Rightarrow>
          (case nodes h e of
             None \<Rightarrow> None
           | Some html \<Rightarrow>
               if nodeName html = ''HTML''
               then find (isElement h (Some [''BODY'', ''FRAMESET''])) (childNodes html)
               else None))"

subsection \<open>Changing the store\<close>

definition update :: "nat \<Rightarrow> (node \<Rightarrow> node) \<Rightarrow> dom \<Rightarrow> dom" where
  "update n f h = h\<lparr>nodes := (nodes h)(n := map_option f (nodes h n))\<rparr>"

text \<open>\<^verbatim>\<open>doc.createTextNode(d)\<close>: a new Text node, with no parent.\<close>

definition createTextNode :: "string \<Rightarrow> dom \<Rightarrow> nat \<times> dom" where
  "createTextNode d h = alloc (leaf TEXT_NODE ''#text'' d None) h"

text \<open>\<^verbatim>\<open>p.removeChild(c)\<close>, for a child \<open>c\<close> of \<open>p\<close>.\<close>

definition removeChild :: "nat \<Rightarrow> nat \<Rightarrow> dom \<Rightarrow> dom" where
  "removeChild p c h =
     update c (\<lambda>nd. nd\<lparr>parentNode := None\<rparr>)
       (update p (\<lambda>nd. nd\<lparr>childNodes := remove1 c (childNodes nd)\<rparr>) h)"

text \<open>
  \<^verbatim>\<open>p.replaceChild(new, old)\<close>, for a child \<open>old\<close> of \<open>p\<close> and a node \<open>new\<close> that has no
  parent. Of the checks the DOM makes first, one can fail for such nodes: a document
  takes no Text child.
\<close>

definition replaceChild :: "nat \<Rightarrow> nat \<Rightarrow> nat \<Rightarrow> dom \<Rightarrow> error + dom" where
  "replaceChild p new old h =
     (if (case nodes h p of None \<Rightarrow> False | Some pn \<Rightarrow> nodeType pn = DOCUMENT_NODE) \<and>
         (case nodes h new of None \<Rightarrow> False | Some nn \<Rightarrow> nodeType nn = TEXT_NODE)
      then Inl HierarchyRequestError
      else Inr
        (update new (\<lambda>nd. nd\<lparr>parentNode := Some p\<rparr>)
          (update old (\<lambda>nd. nd\<lparr>parentNode := None\<rparr>)
            (update p
              (\<lambda>nd. nd\<lparr>childNodes := map (\<lambda>c. if c = old then new else c) (childNodes nd)\<rparr>)
              h))))"

text \<open>
  \<^verbatim>\<open>el.removeAttribute(name)\<close> and \<^verbatim>\<open>el.setAttribute(name, v)\<close> of an HTML element: the
  name is taken in ASCII lower case, and the first attribute of that name is removed,
  or given the new text; \<^verbatim>\<open>setAttribute\<close> appends the attribute when there is none.
\<close>

fun removeAttr :: "string \<Rightarrow> attr list \<Rightarrow> attr list" where
  "removeAttr n [] = []"
| "removeAttr n (a # as) = (if fst a = n then as else a # removeAttr n as)"

fun setAttr :: "string \<Rightarrow> string \<Rightarrow> attr list \<Rightarrow> attr list" where
  "setAttr n v [] = [(n, v)]"
| "setAttr n v (a # as) = (if fst a = n then (n, v) # as else a # setAttr n v as)"

definition removeAttribute :: "nat \<Rightarrow> string \<Rightarrow> dom \<Rightarrow> dom" where
  "removeAttribute el name h =
     update el (\<lambda>nd. nd\<lparr>attributes := removeAttr (map lowerAscii name) (attributes nd)\<rparr>) h"

definition setAttribute :: "nat \<Rightarrow> string \<Rightarrow> string \<Rightarrow> dom \<Rightarrow> dom" where
  "setAttribute el name v h =
     update el (\<lambda>nd. nd\<lparr>attributes := setAttr (map lowerAscii name) v (attributes nd)\<rparr>) h"

section \<open>The sanitizer\<close>

definition ALLOWED_TAGS :: "string set" where
  "ALLOWED_TAGS =
     set [''p'', ''br'', ''hr'', ''blockquote'', ''ul'', ''ol'', ''li'', ''b'', ''strong'',
          ''i'', ''em'', ''u'', ''code'', ''pre'', ''span'', ''a'',
          ''h1'', ''h2'', ''h3'', ''h4'', ''h5'', ''h6'']"

text \<open>
  One round of the loop over the attributes of an allowed element \<open>el\<close> (lines 44 to 80):
  \<open>a\<close> is the \<^verbatim>\<open>Attr\<close> of the snapshot, \<open>tag\<close> the lower-cased tag name.
\<close>

definition visitAttribute :: "string \<Rightarrow> nat \<Rightarrow> attr \<Rightarrow> dom \<Rightarrow> dom" where
  "visitAttribute tag el a h =
     (let name = toLowerCase (fst a);
          val = snd a;
          isEvent = startsWith name ''on'';
          isStyle = (name = ''style'')
      in if isEvent \<or> isStyle then removeAttribute el (fst a) h
         else if tag = ''a'' then
           (if name = ''href'' then
              (let v = trim val;
                   ok = (startsWith v ''http://'' \<or> startsWith v ''https://'' \<or>
                         startsWith v ''mailto:'' \<or> startsWith v ''/'' \<or> startsWith v ''#'')
               in if \<not> ok then removeAttribute el ''href'' h else h)
            else if name = ''title'' then h
            else if name = ''target'' \<or> name = ''rel'' then h
            else removeAttribute el (fst a) h)
         else if tag = ''span'' then removeAttribute el (fst a) h
         else removeAttribute el (fst a) h)"

text \<open>
  \<^verbatim>\<open>walk(node)\<close>. The recursion follows the child lists of the store, so the model bounds
  its depth by \<open>k\<close>: \<open>None\<close> is a walk that the bound cuts, or that meets an address with
  no node. \<open>Some (Inl e)\<close> is a walk that throws \<open>e\<close>, \<open>Some (Inr h')\<close> one that returns
  and leaves the store \<open>h'\<close>.
\<close>

fun walk :: "nat \<Rightarrow> dom \<Rightarrow> nat \<Rightarrow> (error + dom) option"
  and walkEach :: "nat \<Rightarrow> dom \<Rightarrow> nat list \<Rightarrow> (error + dom) option"
where
  "walk 0 h n = None"
| "walk (Suc k) h n =
     (case nodes h n of
        None \<Rightarrow> None
      | Some node \<Rightarrow>
          if nodeType node = COMMENT_NODE then
            (case parentNode node of
               None \<Rightarrow> Some (Inr h)
             | Some p \<Rightarrow> Some (Inr (removeChild p n h)))
          else if nodeType node = ELEMENT_NODE then
            (let tag = toLowerCase (nodeName node) in
             if tag \<notin> ALLOWED_TAGS then
               (case textContent h n of
                  None \<Rightarrow> None
                | Some txt \<Rightarrow>
                    (let (text, h1) = createTextNode txt h in
                     case parentNode node of
                       None \<Rightarrow> Some (Inr h1)
                     | Some p \<Rightarrow> Some (replaceChild p text n h1)))
             else
               (let h1 = fold (visitAttribute tag n) (attributes node) h;
                    h2 = (if tag = ''a''
                          then setAttribute n ''rel'' ''noopener noreferrer''
                                 (setAttribute n ''target'' ''_blank'' h1)
                          else h1)
                in walkEach k h2 (childNodesOf h2 n)))
          else walkEach k h (childNodesOf h n))"
| "walkEach k h [] = Some (Inr h)"
| "walkEach k h (c # cs) =
     (case walk k h c of
        Some (Inr h') \<Rightarrow> walkEach k h' cs
      | r \<Rightarrow> r)"

text \<open>
  The body of the \<^verbatim>\<open>try\<close> block (lines 19 to 95), and \<^verbatim>\<open>sanitizeHtml\<close> with its
  \<^verbatim>\<open>catch\<close>. \<^verbatim>\<open>walk(null)\<close> throws a \<^verbatim>\<open>TypeError\<close> at \<^verbatim>\<open>node.nodeType\<close>. The walk
  and the reading of the store are bounded by the number of nodes created, which no
  descent in a tree exceeds; \<open>None\<close> is a run that does not return.
\<close>

definition sanitizeHtml_try :: "platform \<Rightarrow> string \<Rightarrow> (error + string) option" where
  "sanitizeHtml_try pf input =
     (case parseFromString pf input ''text/html'' of
        Inl e \<Rightarrow> Some (Inl e)
      | Inr t \<Rightarrow>
          (let (doc, h) = load None t emptyDom in
           case body h doc of
             None \<Rightarrow> Some (Inl TypeError)
           | Some b \<Rightarrow>
               (case walk (fresh h) h b of
                  None \<Rightarrow> None
                | Some (Inl e) \<Rightarrow> Some (Inl e)
                | Some (Inr h') \<Rightarrow>
                    (case innerHTML pf h' b of
                       None \<Rightarrow> None
                     | Some (Inl e) \<Rightarrow> Some (Inl e)
                     | Some (Inr html) \<Rightarrow> Some (Inr (if html = [] then [] else html))))))"

definition sanitizeHtml :: "platform \<Rightarrow> string \<Rightarrow> string option" where
  "sanitizeHtml pf input =
     map_option (\<lambda>r. case r of Inl e \<Rightarrow> [] | Inr safe \<Rightarrow> safe) (sanitizeHtml_try pf input)"

section \<open>The component\<close>

text \<open>
  \<^verbatim>\<open>content.split(/\r?\n/)\<close>: a line ends at a \<^verbatim>\<open>\n\<close>, and at a \<^verbatim>\<open>\r\<close> that a \<^verbatim>\<open>\n\<close>
  follows; the line break is not part of a line.
\<close>

fun splitLines :: "string \<Rightarrow> string list" where
  "splitLines [] = [[]]"
| "splitLines (c # s) =
     (if c = CHR 0x0A then [] # splitLines s
      else if c = CHR 0x0D \<and> take 1 s = [CHR 0x0A] then [] # splitLines (drop 1 s)
      else (case splitLines s of
              [] \<Rightarrow> [[c]]
            | l # ls \<Rightarrow> (c # l) # ls))"

text \<open>
  What the component returns: a \<^verbatim>\<open>div\<close> of the given class whose content is markup set
  through \<^verbatim>\<open>dangerouslySetInnerHTML\<close>, or one text child, or one \<^verbatim>\<open>p\<close> for each line, in
  order (each with the index as key and the same class). React writes a text child as
  text.
\<close>

datatype content = DangerouslySetInnerHTML string | TextChild string | Paragraphs "string list"

datatype rendered = Div "string option" content

text \<open>The plain text fallback (lines 114 to 127).\<close>

definition formatPlain :: "string \<Rightarrow> content" where
  "formatPlain content =
     (let lines = filter (\<lambda>l. length (trim l) > 0) (splitLines content)
      in if length lines \<le> 1 then TextChild content else Paragraphs lines)"

definition RichText :: "platform \<Rightarrow> string option \<Rightarrow> string option \<Rightarrow> rendered option" where
  "RichText pf children className =
     (let content = (case children of None \<Rightarrow> [] | Some c \<Rightarrow> c) in
      if looksLikeHtml content then
        map_option (\<lambda>safe. Div className (DangerouslySetInnerHTML safe)) (sanitizeHtml pf content)
      else Some (Div className (formatPlain content)))"

section \<open>Notions for the statements\<close>

subsection \<open>The store holds a tree\<close>

text \<open>
  \<open>rep h p n t\<close>: in the store \<open>h\<close> the node at \<open>n\<close> has the parent \<open>p\<close> and is the root
  of the tree \<open>t\<close>, and below \<open>n\<close> every child has a greater address than its parent.
\<close>

fun rep :: "dom \<Rightarrow> nat option \<Rightarrow> nat \<Rightarrow> tree \<Rightarrow> bool" where
  "rep h p n (Text d) = (n < fresh h \<and> nodes h n = Some (leaf TEXT_NODE ''#text'' d p))"
| "rep h p n (Comment d) =
     (n < fresh h \<and> nodes h n = Some (leaf COMMENT_NODE ''#comment'' d p))"
| "rep h p n (DocumentType nm) =
     (n < fresh h \<and> nodes h n = Some (leaf DOCUMENT_TYPE_NODE nm [] p))"
| "rep h p n (Element nm as ts) =
     (n < fresh h \<and>
      (\<exists>cs. nodes h n = Some (inner ELEMENT_NODE nm as cs p) \<and>
            list_all2 (rep h (Some n)) cs ts \<and> (\<forall>c\<in>set cs. n < c)))"
| "rep h p n (Document ts) =
     (n < fresh h \<and>
      (\<exists>cs. nodes h n = Some (inner DOCUMENT_NODE ''#document'' [] cs p) \<and>
            list_all2 (rep h (Some n)) cs ts \<and> (\<forall>c\<in>set cs. n < c)))"

text \<open>\<^verbatim>\<open>doc.body\<close> and the children of a node, read on the tree of the document.\<close>

fun isElementTree :: "string list option \<Rightarrow> tree \<Rightarrow> bool" where
  "isElementTree names (Element nm as ts) =
     (case names of None \<Rightarrow> True | Some nms \<Rightarrow> nm \<in> set nms)"
| "isElementTree names t = False"

fun childrenOf :: "tree \<Rightarrow> tree list" where
  "childrenOf (Element nm as ts) = ts"
| "childrenOf (Document ts) = ts"
| "childrenOf t = []"

definition bodyOf :: "tree \<Rightarrow> tree option" where
  "bodyOf doc =
     (case doc of
        Document ts \<Rightarrow>
          (case find (isElementTree None) ts of
             Some (Element nm as hs) \<Rightarrow>
               if nm = ''HTML'' then find (isElementTree (Some [''BODY'', ''FRAMESET''])) hs
               else None
           | _ \<Rightarrow> None)
      | _ \<Rightarrow> None)"

subsection \<open>Line breaks\<close>

text \<open>
  The line breaks of a string, in order: each \<^verbatim>\<open>\n\<close>, together with the \<^verbatim>\<open>\r\<close> before
  it when there is one. \<open>rejoin\<close> puts lines and line breaks together again.
\<close>

fun lineBreaks :: "string \<Rightarrow> string list" where
  "lineBreaks [] = []"
| "lineBreaks (c # s) =
     (if c = CHR 0x0A then [CHR 0x0A] # lineBreaks s
      else if c = CHR 0x0D \<and> take 1 s = [CHR 0x0A]
        then [CHR 0x0D, CHR 0x0A] # lineBreaks (drop 1 s)
      else lineBreaks s)"

fun rejoin :: "string list \<Rightarrow> string list \<Rightarrow> string" where
  "rejoin (l # ls) (b # bs) = l @ b @ rejoin ls bs"
| "rejoin ls bs = concat ls @ concat bs"

section \<open>Example documents\<close>

text \<open>
  The documents an HTML parser builds for six inputs: an \<^verbatim>\<open>html\<close> element with an empty
  \<^verbatim>\<open>head\<close> (for the fifth input a \<^verbatim>\<open>head\<close> that holds the \<^verbatim>\<open>title\<close>) and a \<^verbatim>\<open>body\<close> that
  holds the elements of the input.
\<close>

definition htmlDocument :: "tree list \<Rightarrow> tree list \<Rightarrow> tree" where
  "htmlDocument inHead inBody =
     Document [Element ''HTML'' [] [Element ''HEAD'' [] inHead, Element ''BODY'' [] inBody]]"

definition exampleDocuments :: "(string \<times> tree) list" where
  \<open>exampleDocuments =
     [(''<div onclick="x()">Hi</div>'',
         htmlDocument [] [Element ''DIV'' [(''onclick'', ''x()'')] [Text ''Hi'']]),
      (''<span style="color:red" onclick="x()">Hi</span>'',
         htmlDocument []
           [Element ''SPAN'' [(''style'', ''color:red''), (''onclick'', ''x()'')] [Text ''Hi'']]),
      (''<a href="javascript:alert(1)">click</a>'',
         htmlDocument [] [Element ''A'' [(''href'', ''javascript:alert(1)'')] [Text ''click'']]),
      (''<p>Hi<!-- note --></p>'',
         htmlDocument [] [Element ''P'' [] [Text ''Hi'', Comment '' note '']]),
      (''<title>T</title><p>x</p>'',
         htmlDocument [Element ''TITLE'' [] [Text ''T'']] [Element ''P'' [] [Text ''x'']]),
      (''<p>x</p>'',
         htmlDocument [] [Element ''P'' [] [Text ''x'']])]\<close>

text \<open>
  A platform for the examples. Its parser knows the inputs above and throws on any
  other. Its serializer writes markup after the fragment serialization of the HTML
  Standard: no end tag for a void element, the text of a \<^verbatim>\<open>script\<close> or \<^verbatim>\<open>style\<close> as it
  is, any other text and the attribute texts escaped.
\<close>

definition voidElements :: "string list" where
  "voidElements =
     [''area'', ''base'', ''basefont'', ''bgsound'', ''br'', ''col'', ''embed'', ''frame'',
      ''hr'', ''img'', ''input'', ''keygen'', ''link'', ''meta'', ''param'', ''source'',
      ''track'', ''wbr'']"

definition rawTextElements :: "string list" where
  "rawTextElements =
     [''style'', ''script'', ''xmp'', ''iframe'', ''noembed'', ''noframes'', ''plaintext'']"

fun escape :: "bool \<Rightarrow> string \<Rightarrow> string" where
  "escape inAttribute [] = []"
| "escape inAttribute (c # s) =
     (if c = CHR ''&'' then ''&amp;'' @ escape inAttribute s
      else if c = CHR 0xC2 \<and> take 1 s = [CHR 0xA0] then ''&nbsp;'' @ escape inAttribute (drop 1 s)
      else if inAttribute \<and> c = CHR 0x22 then ''&quot;'' @ escape inAttribute s
      else if \<not> inAttribute \<and> c = CHR ''<'' then ''&lt;'' @ escape inAttribute s
      else if \<not> inAttribute \<and> c = CHR ''>'' then ''&gt;'' @ escape inAttribute s
      else c # escape inAttribute s)"

fun writeMarkup :: "bool \<Rightarrow> tree \<Rightarrow> string" where
  "writeMarkup raw (Text d) = (if raw then d else escape False d)"
| "writeMarkup raw (Comment d) = ''<!--'' @ d @ ''-->''"
| "writeMarkup raw (DocumentType nm) = ''<!DOCTYPE '' @ nm @ ''>''"
| "writeMarkup raw (Document ts) = concat (map (writeMarkup False) ts)"
| "writeMarkup raw (Element nm as ts) =
     (let tag = map lowerAscii nm in
      ''<'' @ tag @
      concat (map (\<lambda>a. '' '' @ fst a @ ''='' @ [CHR 0x22] @ escape True (snd a) @ [CHR 0x22]) as) @
      ''>'' @
      (if tag \<in> set voidElements then []
       else concat (map (writeMarkup (tag \<in> set rawTextElements)) ts) @ ''</'' @ tag @ ''>''))"

definition examplePlatform :: platform where
  "examplePlatform =
     \<lparr>parseFromString =
        (\<lambda>input ty.
           case map_of exampleDocuments input of
             None \<Rightarrow> Inl (Thrown ''no such example'')
           | Some t \<Rightarrow> Inr t),
      serializeFragment = (\<lambda>ts. Inr (concat (map (writeMarkup False) ts)))\<rparr>"

section \<open>Properties of the content classifier\<close>

lemma matchHere_star_any: "matchHere [Star AnyChar, Once (Literal g)] s \<longleftrightarrow> g \<in> set s"
  by (induction s) auto

lemma tagTail: "matchHere [Once LetterRangeI, Star AnyChar, Once (Literal g)] s \<longleftrightarrow>
   (\<exists>l rest. s = l # rest \<and> isAsciiLetter l \<and> g \<in> set rest)"
  by (cases s) (auto simp: matchHere_star_any)

lemma slash_not_letter: "\<not> isAsciiLetter CHR ''/''"
  by (simp add: isAsciiLetter_def ascii_lower_def ascii_upper_def)

lemma matchHere_Opt: "matchHere (Opt a # r) s \<longleftrightarrow>
   matchHere r s \<or> (\<exists>c t. s = c # t \<and> accepts a c \<and> matchHere r t)"
  by (cases s) auto

lemma matchHere_Once: "matchHere (Once a # r) s \<longleftrightarrow>
   (\<exists>c t. s = c # t \<and> accepts a c \<and> matchHere r t)"
  by (cases s) auto

lemma matchHere_tagPattern:
  "matchHere tagPattern s \<longleftrightarrow>
     (\<exists>sl l rest. s = ''<'' @ sl @ l # rest \<and> (sl = [] \<or> sl = ''/'') \<and> isAsciiLetter l
        \<and> CHR ''>'' \<in> set rest)"
  (is "?L \<longleftrightarrow> ?R")
proof
  assume ?L
  then obtain t where s: "s = CHR ''<'' # t"
    and t: "matchHere [Opt (Literal CHR ''/''), Once LetterRangeI, Star AnyChar, Once (Literal CHR ''>'')] t"
    unfolding tagPattern_def by (subst (asm) matchHere_Once) auto
  from t consider "matchHere [Once LetterRangeI, Star AnyChar, Once (Literal CHR ''>'')] t"
    | u where "t = CHR ''/'' # u" "matchHere [Once LetterRangeI, Star AnyChar, Once (Literal CHR ''>'')] u"
    by (subst (asm) matchHere_Opt) auto
  then show ?R
  proof cases
    case 1
    then obtain l rest where "t = l # rest" "isAsciiLetter l" "CHR ''>'' \<in> set rest"
      unfolding tagTail by blast
    with s show ?thesis by (intro exI[of _ "[]"] exI[of _ l] exI[of _ rest]) simp
  next
    case 2
    then obtain l rest where "u = l # rest" "isAsciiLetter l" "CHR ''>'' \<in> set rest"
      unfolding tagTail by blast
    with s 2 show ?thesis by (intro exI[of _ "''/''"] exI[of _ l] exI[of _ rest]) simp
  qed
next
  assume ?R
  then obtain sl l rest where s: "s = ''<'' @ sl @ l # rest" and sl: "sl = [] \<or> sl = ''/''"
    and l: "isAsciiLetter l" and g: "CHR ''>'' \<in> set rest" by blast
  from l g have "matchHere [Once LetterRangeI, Star AnyChar, Once (Literal CHR ''>'')] (l # rest)"
    unfolding tagTail by blast
  with sl have "matchHere [Opt (Literal CHR ''/''), Once LetterRangeI, Star AnyChar, Once (Literal CHR ''>'')] (sl @ l # rest)"
    by (subst matchHere_Opt) auto
  with s show ?L unfolding tagPattern_def by (subst matchHere_Once) auto
qed

lemma test_iff: "test r s \<longleftrightarrow> (\<exists>pre t. s = pre @ t \<and> matchHere r t)"
proof (induction s)
  case Nil
  then show ?case by simp
next
  case (Cons c s)
  show ?case
  proof
    assume "test r (c # s)"
    then consider "matchHere r (c # s)" | "test r s" by auto
    then show "\<exists>pre t. c # s = pre @ t \<and> matchHere r t"
    proof cases
      case 1
      then show ?thesis by (intro exI[of _ "[]"] exI[of _ "c # s"]) simp
    next
      case 2
      with Cons obtain pre t where "s = pre @ t" "matchHere r t" by auto
      then show ?thesis by (intro exI[of _ "c # pre"] exI[of _ t]) simp
    qed
  next
    assume "\<exists>pre t. c # s = pre @ t \<and> matchHere r t"
    then obtain pre t where pt: "c # s = pre @ t" "matchHere r t" by auto
    show "test r (c # s)"
    proof (cases pre)
      case Nil
      with pt have "matchHere r (c # s)" by simp
      then show ?thesis by simp
    next
      case (Cons a pre')
      with pt have "s = pre' @ t" by simp
      with pt Cons.IH show ?thesis by auto
    qed
  qed
qed

lemma looksLikeHtml_iff:
  "looksLikeHtml s \<longleftrightarrow>
     (\<exists>pre sl l mid post. s = pre @ ''<'' @ sl @ [l] @ mid @ ''>'' @ post
        \<and> (sl = [] \<or> sl = ''/'') \<and> isAsciiLetter l)"
  (is "?L \<longleftrightarrow> ?R")
proof
  assume ?L
  then obtain pre t where s: "s = pre @ t" and m: "matchHere tagPattern t"
    by (auto simp: looksLikeHtml_def test_iff)
  from m obtain sl l rest where t: "t = ''<'' @ sl @ l # rest" and sl: "sl = [] \<or> sl = ''/''"
    and l: "isAsciiLetter l" and g: "CHR ''>'' \<in> set rest"
    unfolding matchHere_tagPattern by blast
  from g obtain mid post where "rest = mid @ CHR ''>'' # post"
    by (auto simp: in_set_conv_decomp)
  with s t sl l show ?R
    by (intro exI[of _ pre] exI[of _ sl] exI[of _ l] exI[of _ mid] exI[of _ post]) auto
next
  assume ?R
  then obtain pre sl l mid post where s: "s = pre @ ''<'' @ sl @ [l] @ mid @ ''>'' @ post"
    and sl: "sl = [] \<or> sl = ''/''" and l: "isAsciiLetter l" by blast
  have "matchHere tagPattern (''<'' @ sl @ l # (mid @ ''>'' @ post))"
    unfolding matchHere_tagPattern using sl l
    by (intro exI[of _ sl] exI[of _ l] exI[of _ "mid @ ''>'' @ post"]) auto
  with s show ?L unfolding looksLikeHtml_def test_iff
    by (intro exI[of _ pre] exI[of _ "''<'' @ sl @ [l] @ mid @ ''>'' @ post"]) auto
qed

text \<open>
  C6. \<open>looksLikeHtml\<close> holds of a string exactly when the string has a part made of
  \<^verbatim>\<open><\<close>, then \<^verbatim>\<open>/\<close> or nothing, then an ASCII letter of either case, then any
  characters, then \<^verbatim>\<open>>\<close>. It is a function of the string alone, with a value for every
  string: false for \<^verbatim>\<open>a < b\<close> and for the empty string, true for
  \<^verbatim>\<open>use <b>bold</b> text\<close>.
\<close>

theorem looksLikeHtml_spec:
  "(looksLikeHtml s \<longleftrightarrow>
      (\<exists>pre sl l mid post. s = pre @ ''<'' @ sl @ [l] @ mid @ ''>'' @ post
         \<and> (sl = [] \<or> sl = ''/'') \<and> isAsciiLetter l))
   \<and> looksLikeHtml ''a < b'' = False
   \<and> looksLikeHtml ''use <b>bold</b> text'' = True
   \<and> looksLikeHtml [] = False"
proof -
  have "looksLikeHtml ''a < b'' = False" "looksLikeHtml ''use <b>bold</b> text'' = True"
    "looksLikeHtml [] = False"
    by (simp_all add: looksLikeHtml_def tagPattern_def isAsciiLetter_def ascii_lower_def
        ascii_upper_def)
  with looksLikeHtml_iff[of s] show ?thesis by blast
qed

section \<open>Properties of the plain text fallback\<close>

lemma splitLines_nonempty: "splitLines s \<noteq> []"
  by (induction s rule: splitLines.induct) (auto split: list.splits)

lemma splitLines_length: "length (splitLines s) = Suc (length (lineBreaks s))"
  by (induction s rule: splitLines.induct) (auto split: list.splits simp: splitLines_nonempty)

lemma rejoin_Cons: "ls \<noteq> [] \<Longrightarrow> rejoin ((c # hd ls) # tl ls) bs = c # rejoin ls bs"
  by (cases ls; cases bs) (auto)

lemma splitLines_rejoin: "rejoin (splitLines s) (lineBreaks s) = s"
proof (induction s rule: splitLines.induct)
  case 1
  then show ?case by simp
next
  case (2 c s)
  show ?case
  proof (cases "c = CHR 0x0A")
    case True
    with 2 show ?thesis by simp
  next
    case False
    show ?thesis
    proof (cases "c = CHR 0x0D \<and> take 1 s = [CHR 0x0A]")
      case True
      then obtain s' where s: "s = CHR 0x0A # s'" by (cases s) auto
      with True False 2 show ?thesis by simp
    next
      case False
      with \<open>c \<noteq> CHR 0x0A\<close> 2 have IH: "rejoin (splitLines s) (lineBreaks s) = s" by simp
      obtain l ls where sl: "splitLines s = l # ls"
        using splitLines_nonempty[of s] by (cases "splitLines s") auto
      with False \<open>c \<noteq> CHR 0x0A\<close> IH rejoin_Cons[of "splitLines s" c "lineBreaks s"]
      show ?thesis by auto
    qed
  qed
qed

lemma lineBreaks_set: "set (lineBreaks s) \<subseteq> {[CHR 0x0A], [CHR 0x0D, CHR 0x0A]}"
  by (induction s rule: lineBreaks.induct) auto

lemma splitLines_no_LF: "l \<in> set (splitLines s) \<Longrightarrow> CHR 0x0A \<notin> set l"
  by (induction s arbitrary: l rule: splitLines.induct) (auto split: list.splits if_splits)

text \<open>
  C7. The plain text fallback keeps the lines of the content that are not blank, as they
  are and in order, where the lines are what stands between the line breaks \<^verbatim>\<open>\n\<close> and
  \<^verbatim>\<open>\r\n\<close>. With at most one such line it returns the content itself as one text child;
  with two or more it returns one paragraph for each. \<^verbatim>\<open>Line1\nLine2\<close> and
  \<^verbatim>\<open>Line1\n\nLine2\<close> both give the two paragraphs \<^verbatim>\<open>Line1\<close> and \<^verbatim>\<open>Line2\<close>.
\<close>

theorem formatPlain_spec:
  "formatPlain c =
     (let kept = filter (\<lambda>l. trim l \<noteq> []) (splitLines c)
      in if length kept \<le> 1 then TextChild c else Paragraphs kept)
   \<and> length (splitLines c) = Suc (length (lineBreaks c))
   \<and> rejoin (splitLines c) (lineBreaks c) = c
   \<and> set (lineBreaks c) \<subseteq> {[CHR 0x0A], [CHR 0x0D, CHR 0x0A]}
   \<and> (\<forall>l\<in>set (splitLines c). CHR 0x0A \<notin> set l)
   \<and> formatPlain ''Line1\<newline>Line2'' = Paragraphs [''Line1'', ''Line2'']
   \<and> formatPlain ''Line1\<newline>\<newline>Line2'' = Paragraphs [''Line1'', ''Line2'']
   \<and> formatPlain ''Hello world'' = TextChild ''Hello world''"
proof -
  have "formatPlain c =
     (let kept = filter (\<lambda>l. trim l \<noteq> []) (splitLines c)
      in if length kept \<le> 1 then TextChild c else Paragraphs kept)"
    by (simp add: formatPlain_def)
  moreover have "formatPlain ''Line1\<newline>Line2'' = Paragraphs [''Line1'', ''Line2'']"
    by code_simp
  moreover have "formatPlain ''Line1\<newline>\<newline>Line2'' = Paragraphs [''Line1'', ''Line2'']"
    by code_simp
  moreover have "formatPlain ''Hello world'' = TextChild ''Hello world''"
    by code_simp
  ultimately show ?thesis
    using splitLines_length[of c] splitLines_rejoin[of c] lineBreaks_set[of c]
      splitLines_no_LF[of _ c]
    by blast
qed

theorem formatPlain_spec_witness:
  "''  b '' \<in> set (splitLines (''a'' @ [CHR 0x0D, CHR 0x0A] @ ''  b '' @ [CHR 0x0A, CHR 0x20]))
   \<and> CHR 0x0A \<notin> set ''  b ''
   \<and> formatPlain (''a'' @ [CHR 0x0D, CHR 0x0A] @ ''  b '' @ [CHR 0x0A, CHR 0x20])
       = Paragraphs [''a'', ''  b '']"
proof -
  have "''  b '' \<in> set (splitLines (''a'' @ [CHR 0x0D, CHR 0x0A] @ ''  b '' @ [CHR 0x0A, CHR 0x20]))"
    by code_simp
  moreover have "filter (\<lambda>l. trim l \<noteq> [])
      (splitLines (''a'' @ [CHR 0x0D, CHR 0x0A] @ ''  b '' @ [CHR 0x0A, CHR 0x20]))
      = [''a'', ''  b '']"
    by code_simp
  ultimately show ?thesis
    using formatPlain_spec[of "''a'' @ [CHR 0x0D, CHR 0x0A] @ ''  b '' @ [CHR 0x0A, CHR 0x20]"]
    by (simp del: splitLines.simps)
qed

section \<open>Properties of the sanitizer\<close>

subsection \<open>A loaded document is in the store as its tree\<close>

lemma rep_frame:
  "rep h p n t \<Longrightarrow> (\<forall>i. n \<le> i \<and> i < fresh h \<longrightarrow> nodes h1 i = nodes h i) \<Longrightarrow>
   fresh h \<le> fresh h1 \<Longrightarrow> rep h1 p n t"
proof (induction t arbitrary: n p)
  case (Element nm as ts)
  from Element.prems obtain cs where n: "n < fresh h"
    and nd: "nodes h n = Some (inner ELEMENT_NODE nm as cs p)"
    and kids: "list_all2 (rep h (Some n)) cs ts" and gt: "\<forall>c\<in>set cs. n < c"
    by auto
  have "list_all2 (rep h1 (Some n)) cs ts"
    using kids
  proof (rule list.rel_mono_strong)
    fix c t assume c: "c \<in> set cs" and t: "t \<in> set ts" and r: "rep h (Some n) c t"
    from c gt have "n < c" by simp
    with Element.prems(2,3) show "rep h1 (Some n) c t"
      by (intro Element.IH[OF t r]) auto
  qed
  with n nd gt Element.prems(2,3) show ?case by auto
next
  case (Document ts)
  from Document.prems obtain cs where n: "n < fresh h"
    and nd: "nodes h n = Some (inner DOCUMENT_NODE ''#document'' [] cs p)"
    and kids: "list_all2 (rep h (Some n)) cs ts" and gt: "\<forall>c\<in>set cs. n < c"
    by auto
  have "list_all2 (rep h1 (Some n)) cs ts"
    using kids
  proof (rule list.rel_mono_strong)
    fix c t assume c: "c \<in> set cs" and t: "t \<in> set ts" and r: "rep h (Some n) c t"
    from c gt have "n < c" by simp
    with Document.prems(2,3) show "rep h1 (Some n) c t"
      by (intro Document.IH[OF t r]) auto
  qed
  with n nd gt Document.prems(2,3) show ?case by auto
qed auto

lemma those_map_Some:
  "list_all2 (\<lambda>c t. f c = Some t) cs ts \<Longrightarrow> those (map f cs) = Some ts"
  by (induction cs ts rule: list_all2_induct) auto

lemma rep_subtree:
  "rep h p n t \<Longrightarrow> fresh h - n \<le> k \<Longrightarrow> subtree k h n = Some t"
proof (induction t arbitrary: n p k)
  case (Element nm as ts)
  from Element.prems obtain cs where n: "n < fresh h"
    and nd: "nodes h n = Some (inner ELEMENT_NODE nm as cs p)"
    and kids: "list_all2 (rep h (Some n)) cs ts" and gt: "\<forall>c\<in>set cs. n < c"
    by auto
  from n Element.prems(2) obtain k' where k: "k = Suc k'" by (cases k) auto
  have "list_all2 (\<lambda>c t. subtree k' h c = Some t) cs ts"
    using kids
  proof (rule list.rel_mono_strong)
    fix c t assume c: "c \<in> set cs" and t: "t \<in> set ts" and r: "rep h (Some n) c t"
    from c gt have "n < c" by simp
    with Element.prems(2) k show "subtree k' h c = Some t"
      by (intro Element.IH[OF t r]) auto
  qed
  then have "those (map (subtree k' h) cs) = Some ts" by (rule those_map_Some)
  with nd k show ?case by (simp add: inner_def)
next
  case (Document ts)
  from Document.prems obtain cs where n: "n < fresh h"
    and nd: "nodes h n = Some (inner DOCUMENT_NODE ''#document'' [] cs p)"
    and kids: "list_all2 (rep h (Some n)) cs ts" and gt: "\<forall>c\<in>set cs. n < c"
    by auto
  from n Document.prems(2) obtain k' where k: "k = Suc k'" by (cases k) auto
  have "list_all2 (\<lambda>c t. subtree k' h c = Some t) cs ts"
    using kids
  proof (rule list.rel_mono_strong)
    fix c t assume c: "c \<in> set cs" and t: "t \<in> set ts" and r: "rep h (Some n) c t"
    from c gt have "n < c" by simp
    with Document.prems(2) k show "subtree k' h c = Some t"
      by (intro Document.IH[OF t r]) auto
  qed
  then have "those (map (subtree k' h) cs) = Some ts" by (rule those_map_Some)
  with nd k show ?case by (simp add: inner_def)
next
  case (Text d)
  then obtain k' where "k = Suc k'" by (cases k) auto
  with Text show ?case by (simp add: leaf_def)
next
  case (Comment d)
  then obtain k' where "k = Suc k'" by (cases k) auto
  with Comment show ?case by (simp add: leaf_def)
next
  case (DocumentType nm)
  then obtain k' where "k = Suc k'" by (cases k) auto
  with DocumentType show ?case by (simp add: leaf_def)
qed

lemma load_rep:
  "(load p t h = (n, h') \<longrightarrow>
      n = fresh h \<and> fresh h < fresh h' \<and> (\<forall>i<fresh h. nodes h' i = nodes h i) \<and> rep h' p n t)"
  "(loadAll p ts h = (cs, h') \<longrightarrow>
      fresh h \<le> fresh h' \<and> (\<forall>i<fresh h. nodes h' i = nodes h i) \<and>
      list_all2 (rep h' p) cs ts \<and> (\<forall>c\<in>set cs. fresh h \<le> c \<and> c < fresh h'))"
proof (induction p t h and p ts h arbitrary: n h' and cs h' rule: load_loadAll.induct)
  case (1 p d h)
  then show ?case by (auto simp: alloc_def)
next
  case (2 p d h)
  then show ?case by (auto simp: alloc_def)
next
  case (3 p nm h)
  then show ?case by (auto simp: alloc_def)
next
  case (4 p nm as ts h)
  show ?case
  proof
    assume L: "load p (Element nm as ts) h = (n, h')"
    define h1 where "h1 = snd (alloc (inner ELEMENT_NODE nm as [] p) h)"
    have a: "alloc (inner ELEMENT_NODE nm as [] p) h = (fresh h, h1)"
      by (simp add: h1_def alloc_def)
    obtain cs h2 where la: "loadAll (Some (fresh h)) ts h1 = (cs, h2)" by (cases "loadAll (Some (fresh h)) ts h1")
    from L a la have n: "n = fresh h"
      and h': "h' = h2\<lparr>nodes := (nodes h2)(fresh h \<mapsto> inner ELEMENT_NODE nm as cs p)\<rparr>"
      by auto
    have f1: "fresh h1 = Suc (fresh h)" and n1: "\<forall>i<fresh h. nodes h1 i = nodes h i"
      by (auto simp: h1_def alloc_def)
    from 4[OF a[symmetric] refl, of cs h2] la
    have IH: "fresh h1 \<le> fresh h2" "\<forall>i<fresh h1. nodes h2 i = nodes h1 i"
      "list_all2 (rep h2 (Some (fresh h))) cs ts" "\<forall>c\<in>set cs. fresh h1 \<le> c \<and> c < fresh h2"
      by auto
    have "list_all2 (rep h' (Some (fresh h))) cs ts"
      using IH(3)
    proof (rule list.rel_mono_strong)
      fix c t assume c: "c \<in> set cs" and r: "rep h2 (Some (fresh h)) c t"
      from c IH(4) f1 have "fresh h < c" by auto
      then show "rep h' (Some (fresh h)) c t"
        by (intro rep_frame[OF r]) (auto simp: h')
    qed
    moreover from IH(4) f1 have "\<forall>c\<in>set cs. fresh h < c" by auto
    ultimately have "rep h' p (fresh h) (Element nm as ts)"
      using IH(1) f1 by (auto simp: h' intro!: exI[of _ cs])
    moreover have "\<forall>i<fresh h. nodes h' i = nodes h i"
      using IH(2) f1 n1 by (auto simp: h')
    moreover have "fresh h < fresh h'"
      using IH(1) f1 by (simp add: h')
    ultimately show "n = fresh h \<and> fresh h < fresh h' \<and> (\<forall>i<fresh h. nodes h' i = nodes h i) \<and>
       rep h' p n (Element nm as ts)"
      by (simp add: n)
  qed
next
  case (5 p ts h)
  show ?case
  proof
    assume L: "load p (Document ts) h = (n, h')"
    define h1 where "h1 = snd (alloc (inner DOCUMENT_NODE ''#document'' [] [] p) h)"
    have a: "alloc (inner DOCUMENT_NODE ''#document'' [] [] p) h = (fresh h, h1)"
      by (simp add: h1_def alloc_def)
    obtain cs h2 where la: "loadAll (Some (fresh h)) ts h1 = (cs, h2)" by (cases "loadAll (Some (fresh h)) ts h1")
    from L a la have n: "n = fresh h"
      and h': "h' = h2\<lparr>nodes := (nodes h2)(fresh h \<mapsto> inner DOCUMENT_NODE ''#document'' [] cs p)\<rparr>"
      by auto
    have f1: "fresh h1 = Suc (fresh h)" and n1: "\<forall>i<fresh h. nodes h1 i = nodes h i"
      by (auto simp: h1_def alloc_def)
    from 5[OF a[symmetric] refl, of cs h2] la
    have IH: "fresh h1 \<le> fresh h2" "\<forall>i<fresh h1. nodes h2 i = nodes h1 i"
      "list_all2 (rep h2 (Some (fresh h))) cs ts" "\<forall>c\<in>set cs. fresh h1 \<le> c \<and> c < fresh h2"
      by auto
    have "list_all2 (rep h' (Some (fresh h))) cs ts"
      using IH(3)
    proof (rule list.rel_mono_strong)
      fix c t assume c: "c \<in> set cs" and r: "rep h2 (Some (fresh h)) c t"
      from c IH(4) f1 have "fresh h < c" by auto
      then show "rep h' (Some (fresh h)) c t"
        by (intro rep_frame[OF r]) (auto simp: h')
    qed
    moreover from IH(4) f1 have "\<forall>c\<in>set cs. fresh h < c" by auto
    ultimately have "rep h' p (fresh h) (Document ts)"
      using IH(1) f1 by (auto simp: h' intro!: exI[of _ cs])
    moreover have "\<forall>i<fresh h. nodes h' i = nodes h i"
      using IH(2) f1 n1 by (auto simp: h')
    moreover have "fresh h < fresh h'"
      using IH(1) f1 by (simp add: h')
    ultimately show "n = fresh h \<and> fresh h < fresh h' \<and> (\<forall>i<fresh h. nodes h' i = nodes h i) \<and>
       rep h' p n (Document ts)"
      by (simp add: n)
  qed
next
  case (6 p h)
  then show ?case by auto
next
  case (7 p t ts h)
  show ?case
  proof
    assume L: "loadAll p (t # ts) h = (cs, h')"
    obtain c h1 where l1: "load p t h = (c, h1)" by (cases "load p t h")
    obtain cs' h2 where l2: "loadAll p ts h1 = (cs', h2)" by (cases "loadAll p ts h1")
    from L l1 l2 have cs: "cs = c # cs'" and h': "h' = h2" by auto
    from 7(1)[of c h1] l1 have IH1: "c = fresh h" "fresh h < fresh h1"
      "\<forall>i<fresh h. nodes h1 i = nodes h i" "rep h1 p c t" by auto
    from 7(2)[OF l1[symmetric] refl, of cs' h2] l2
    have IH2: "fresh h1 \<le> fresh h2" "\<forall>i<fresh h1. nodes h2 i = nodes h1 i"
      "list_all2 (rep h2 p) cs' ts" "\<forall>c\<in>set cs'. fresh h1 \<le> c \<and> c < fresh h2" by auto
    from IH1 IH2 have "rep h2 p c t"
      by (intro rep_frame[OF IH1(4)]) auto
    with IH1 IH2 show "fresh h \<le> fresh h' \<and> (\<forall>i<fresh h. nodes h' i = nodes h i) \<and>
      list_all2 (rep h' p) cs (t # ts) \<and> (\<forall>c\<in>set cs. fresh h \<le> c \<and> c < fresh h')"
      by (auto simp: cs h')
  qed
qed

lemma rep_isElement: "rep h p c t \<Longrightarrow> isElement h names c = isElementTree names t"
  by (cases t) (auto simp: isElement_def leaf_def inner_def split: option.splits)

lemma find_rep:
  "list_all2 (rep h p) cs ts \<Longrightarrow>
   (case find (isElement h names) cs of
      None \<Rightarrow> find (isElementTree names) ts = None
    | Some c \<Rightarrow> \<exists>t. find (isElementTree names) ts = Some t \<and> rep h p c t \<and> c \<in> set cs)"
proof (induction cs ts rule: list_all2_induct)
  case Nil
  then show ?case by simp
next
  case (Cons c cs t ts)
  then show ?case
    by (auto simp: rep_isElement[of h p c t names] split: option.splits)
qed

lemma body_rep:
  assumes "rep h p d t"
  shows "(case body h d of
            None \<Rightarrow> bodyOf t = None
          | Some b \<Rightarrow>
              (\<exists>e en nm as ts. bodyOf t = Some (Element nm as ts) \<and>
                 nm \<in> set [''BODY'', ''FRAMESET''] \<and> rep h (Some e) b (Element nm as ts) \<and>
                 e < b \<and> nodes h e = Some en \<and> nodeType en = ELEMENT_NODE))"
proof (cases t)
  case (Document ts)
  with assms obtain cs where nd: "nodes h d = Some (inner DOCUMENT_NODE ''#document'' [] cs p)"
    and kids: "list_all2 (rep h (Some d)) cs ts" by auto
  show ?thesis
  proof (cases "find (isElement h None) cs")
    case None
    with find_rep[OF kids, of None] nd Document show ?thesis
      by (simp add: body_def documentElement_def bodyOf_def inner_def)
  next
    case (Some e)
    with find_rep[OF kids, of None] obtain et where
      et: "find (isElementTree None) ts = Some et" and re: "rep h (Some d) e et" by auto
    from et have "isElementTree None et" by (auto simp: find_Some_iff)
    then obtain nm as hs where ee: "et = Element nm as hs" by (cases et) auto
    with re obtain ecs where en: "nodes h e = Some (inner ELEMENT_NODE nm as ecs (Some d))"
      and ekids: "list_all2 (rep h (Some e)) ecs hs" and egt: "\<forall>c\<in>set ecs. e < c" by auto
    show ?thesis
    proof (cases "nm = ''HTML''")
      case False
      with nd Some en et ee Document show ?thesis
        by (simp add: body_def documentElement_def bodyOf_def inner_def)
    next
      case True
      show ?thesis
      proof (cases "find (isElement h (Some [''BODY'', ''FRAMESET''])) ecs")
        case None
        with find_rep[OF ekids, of "Some [''BODY'', ''FRAMESET'']"] nd Some en et ee Document True
        show ?thesis
          by (simp add: body_def documentElement_def bodyOf_def inner_def)
      next
        case (Some b)
        with find_rep[OF ekids, of "Some [''BODY'', ''FRAMESET'']"] obtain bt where
          bt: "find (isElementTree (Some [''BODY'', ''FRAMESET''])) hs = Some bt"
          and rb: "rep h (Some e) b bt" and bin: "b \<in> set ecs" by auto
        from bt have "isElementTree (Some [''BODY'', ''FRAMESET'']) bt" by (auto simp: find_Some_iff)
        then obtain bn bas bts where bb: "bt = Element bn bas bts" and bn: "bn \<in> set [''BODY'', ''FRAMESET'']"
          by (cases bt) auto
        have B: "body h d = Some b"
          using nd \<open>find (isElement h None) cs = Some e\<close> en True Some
          by (simp add: body_def documentElement_def inner_def)
        have "bodyOf t = Some (Element bn bas bts)"
          using Document et ee True bt bb by (simp add: bodyOf_def)
        with B rb bb bn bin egt en show ?thesis
          by (auto simp: inner_def)
      qed
    qed
  qed
qed (use assms in \<open>auto simp: body_def documentElement_def bodyOf_def leaf_def inner_def\<close>)

lemma rep_childTrees:
  assumes "nodes h n = Some nd" and "list_all2 (rep h (Some n)) (childNodes nd) ts"
    and "\<forall>c\<in>set (childNodes nd). n < c"
  shows "childTrees h n = Some ts"
proof -
  have "list_all2 (\<lambda>c t. subtree (fresh h) h c = Some t) (childNodes nd) ts"
    using assms(2)
  proof (rule list.rel_mono_strong)
    fix c t assume "rep h (Some n) c t"
    then show "subtree (fresh h) h c = Some t" by (rule rep_subtree) simp
  qed
  then have "those (map (subtree (fresh h) h) (childNodes nd)) = Some ts"
    by (rule those_map_Some)
  with assms(1) show ?thesis by (simp add: childTrees_def)
qed

lemma body_not_allowed:
  "nm \<in> set [''BODY'', ''FRAMESET''] \<Longrightarrow> toLowerCase nm \<notin> ALLOWED_TAGS"
  by (auto simp: ALLOWED_TAGS_def lowerAscii_def ascii_lower_def ascii_upper_def)

lemma walk_disallowed:
  assumes r: "rep h (Some e) b (Element nm as ts)"
    and nm: "toLowerCase nm \<notin> ALLOWED_TAGS"
    and e: "e < b" "nodes h e = Some en" "nodeType en = ELEMENT_NODE"
  shows "\<exists>h'. walk (fresh h) h b = Some (Inr h') \<and> childTrees h' b = Some ts"
proof -
  from r obtain cs where b: "b < fresh h"
    and nd: "nodes h b = Some (inner ELEMENT_NODE nm as cs (Some e))"
    and kids: "list_all2 (rep h (Some b)) cs ts" and gt: "\<forall>c\<in>set cs. b < c"
    by auto
  from b obtain k where k: "fresh h = Suc k" by (cases "fresh h") auto
  have ct: "childTrees h b = Some ts"
    using nd kids gt by (intro rep_childTrees[where nd = "inner ELEMENT_NODE nm as cs (Some e)"]) (auto simp: inner_def)
  define tc where "tc = concat (map descendantText ts)"
  define h1 where "h1 = snd (createTextNode tc h)"
  have c1: "createTextNode tc h = (fresh h, h1)"
    by (simp add: h1_def createTextNode_def alloc_def)
  define h' where "h' =
    update (fresh h) (\<lambda>nd. nd\<lparr>parentNode := Some e\<rparr>)
      (update b (\<lambda>nd. nd\<lparr>parentNode := None\<rparr>)
        (update e (\<lambda>nd. nd\<lparr>childNodes := map (\<lambda>c. if c = b then fresh h else c) (childNodes nd)\<rparr>) h1))"
  have n1: "nodes h1 = (nodes h)(fresh h \<mapsto> leaf TEXT_NODE ''#text'' tc None)"
    and f1: "fresh h1 = Suc (fresh h)"
    by (simp_all add: h1_def createTextNode_def alloc_def)
  have rc: "replaceChild e (fresh h) b h1 = Inr h'"
    using e b by (simp add: replaceChild_def h'_def n1 leaf_def)
  have w: "walk (fresh h) h b = Some (Inr h')"
    unfolding k walk.simps using nd nm ct c1[unfolded k] rc[unfolded k]
    by (simp add: inner_def textContent_def tc_def)
  have fh': "fresh h' = Suc (fresh h)"
    by (simp add: h'_def update_def f1)
  have same: "nodes h' i = nodes h i" if "b < i" "i < fresh h" for i
    using that e by (simp add: h'_def update_def n1)
  have nb: "nodes h' b = Some ((inner ELEMENT_NODE nm as cs (Some e))\<lparr>parentNode := None\<rparr>)"
    using b e nd by (simp add: h'_def update_def n1)
  have "list_all2 (rep h' (Some b)) cs ts"
    using kids
  proof (rule list.rel_mono_strong)
    fix c t assume c: "c \<in> set cs" and rt: "rep h (Some b) c t"
    from c gt have "b < c" by simp
    then show "rep h' (Some b) c t"
      by (intro rep_frame[OF rt]) (auto simp: same fh')
  qed
  then have "childTrees h' b = Some ts"
    using nb gt by (intro rep_childTrees[OF nb]) (auto simp: inner_def)
  with w show ?thesis by blast
qed

lemma sanitizeHtml_try_body:
  "sanitizeHtml_try pf input =
     Some (case parseFromString pf input ''text/html'' of
             Inl e \<Rightarrow> Inl e
           | Inr t \<Rightarrow>
               (case bodyOf t of
                  None \<Rightarrow> Inl TypeError
                | Some b \<Rightarrow> serializeFragment pf (childrenOf b)))"
proof (cases "parseFromString pf input ''text/html''")
  case (Inl e)
  then show ?thesis by (simp add: sanitizeHtml_try_def)
next
  case (Inr t)
  obtain doc h where L: "load None t emptyDom = (doc, h)" by (cases "load None t emptyDom")
  from load_rep(1)[of None t emptyDom doc h] L have r: "rep h None doc t" by blast
  show ?thesis
  proof (cases "body h doc")
    case None
    with body_rep[OF r] Inr L show ?thesis by (simp add: sanitizeHtml_try_def)
  next
    case (Some b)
    with body_rep[OF r] have "\<exists>e en nm as ts. bodyOf t = Some (Element nm as ts) \<and>
        nm \<in> set [''BODY'', ''FRAMESET''] \<and> rep h (Some e) b (Element nm as ts) \<and>
        e < b \<and> nodes h e = Some en \<and> nodeType en = ELEMENT_NODE"
      by (simp del: rep.simps)
    then obtain e en nm as ts where bo: "bodyOf t = Some (Element nm as ts)"
      and nm: "nm \<in> set [''BODY'', ''FRAMESET'']" and rb: "rep h (Some e) b (Element nm as ts)"
      and e: "e < b" "nodes h e = Some en" "nodeType en = ELEMENT_NODE" by blast
    from walk_disallowed[OF rb body_not_allowed[OF nm] e] obtain h' where
      w: "walk (fresh h) h b = Some (Inr h')" and ct: "childTrees h' b = Some ts" by blast
    show ?thesis
      using Inr L Some w ct bo
      by (cases "serializeFragment pf ts") (simp_all add: sanitizeHtml_try_def innerHTML_def)
  qed
qed

lemma sanitizeHtml_body:
  "sanitizeHtml pf input =
     Some (case parseFromString pf input ''text/html'' of
             Inl e \<Rightarrow> []
           | Inr t \<Rightarrow>
               (case bodyOf t of
                  None \<Rightarrow> []
                | Some b \<Rightarrow>
                    (case serializeFragment pf (childrenOf b) of
                       Inl e \<Rightarrow> []
                     | Inr html \<Rightarrow> html)))"
  by (simp add: sanitizeHtml_def sanitizeHtml_try_body split: sum.splits option.splits)

lemma bodyOf_htmlDocument:
  "bodyOf (htmlDocument inHead inBody) = Some (Element ''BODY'' [] inBody)"
  by (simp add: bodyOf_def htmlDocument_def)

lemma sanitizeHtml_try_htmlDocument:
  "sanitizeHtml_try (pf\<lparr>parseFromString := \<lambda>i ty. Inr (htmlDocument inHead inBody)\<rparr>) input
     = Some (serializeFragment pf inBody)"
  by (simp add: sanitizeHtml_try_body bodyOf_htmlDocument)

subsection \<open>What the walk reaches\<close>

text \<open>
  \<^verbatim>\<open>sanitizeHtml\<close> starts the walk at \<^verbatim>\<open>doc.body\<close>. The tag of that element is \<^verbatim>\<open>body\<close> (or
  \<^verbatim>\<open>frameset\<close>), which \<^verbatim>\<open>ALLOWED_TAGS\<close> does not hold: the walk replaces the body, in the
  \<^verbatim>\<open>html\<close> element, by a text node, and returns before it reaches any child. The
  variable \<^verbatim>\<open>body\<close> still refers to the element taken out, whose children are as the
  parser built them, and \<^verbatim>\<open>body.innerHTML\<close> writes those (\<open>walk_disallowed\<close>,
  \<open>sanitizeHtml_try_body\<close>).

  Started on an element inside the body, \<open>walk\<close> does what its comments say. In the
  store of each of the first four example documents, node 3 is the body and node 4 the
  element in it: the walk from node 4 replaces the \<^verbatim>\<open>div\<close> by its text, strips the
  attributes of the \<^verbatim>\<open>span\<close>, takes the \<^verbatim>\<open>href\<close> off the anchor and sets its \<^verbatim>\<open>target\<close>
  and \<^verbatim>\<open>rel\<close>, and removes the comment in the paragraph.
\<close>

lemma walk_on_div_example:
  "(let (doc, h) =
      load None (htmlDocument [] [Element ''DIV'' [(''onclick'', ''x()'')] [Text ''Hi'']]) emptyDom
    in (body h doc, map_option (map_sum id (\<lambda>h'. childTrees h' 3)) (walk (fresh h) h 4)))
   = (Some 3, Some (Inr (Some [Text ''Hi''])))"
  by code_simp

lemma walk_on_span_example:
  "(let (doc, h) =
      load None
        (htmlDocument []
          [Element ''SPAN'' [(''style'', ''color:red''), (''onclick'', ''x()'')] [Text ''Hi'']])
        emptyDom
    in (body h doc, map_option (map_sum id (\<lambda>h'. childTrees h' 3)) (walk (fresh h) h 4)))
   = (Some 3, Some (Inr (Some [Element ''SPAN'' [] [Text ''Hi'']])))"
  by code_simp

lemma walk_on_anchor_example:
  "(let (doc, h) =
      load None
        (htmlDocument [] [Element ''A'' [(''href'', ''javascript:alert(1)'')] [Text ''click'']])
        emptyDom
    in (body h doc, map_option (map_sum id (\<lambda>h'. childTrees h' 3)) (walk (fresh h) h 4)))
   = (Some 3,
      Some (Inr (Some [Element ''A'' [(''target'', ''_blank''), (''rel'', ''noopener noreferrer'')]
                         [Text ''click'']])))"
  by code_simp

lemma walk_on_comment_example:
  "(let (doc, h) =
      load None (htmlDocument [] [Element ''P'' [] [Text ''Hi'', Comment '' note '']]) emptyDom
    in (body h doc, map_option (map_sum id (\<lambda>h'. childTrees h' 3)) (walk (fresh h) h 4)))
   = (Some 3, Some (Inr (Some [Element ''P'' [] [Text ''Hi'']])))"
  by code_simp

text \<open>
  C1, which the code does not meet. For the input \<^verbatim>\<open><div onclick="x()">Hi</div>\<close> the
  sanitizer returns the markup of the \<^verbatim>\<open>div\<close> element, with its attribute, and not the
  text \<^verbatim>\<open>Hi\<close>; \<^verbatim>\<open>div\<close> is not an allowed tag. Whatever the serializer, and whatever the
  attributes and children of a \<^verbatim>\<open>div\<close> in the body, what is serialized is that element.
\<close>

theorem sanitizeHtml_keeps_disallowed_element:
  \<open>sanitizeHtml examplePlatform ''<div onclick="x()">Hi</div>''
     = Some ''<div onclick="x()">Hi</div>''
   \<and> sanitizeHtml_try
        (pf\<lparr>parseFromString := \<lambda>i ty. Inr (htmlDocument inHead [Element ''DIV'' as ts])\<rparr>)
        input
       = Some (serializeFragment pf [Element ''DIV'' as ts])
   \<and> toLowerCase ''DIV'' \<notin> ALLOWED_TAGS\<close>
proof -
  have \<open>sanitizeHtml examplePlatform ''<div onclick="x()">Hi</div>''
      = Some ''<div onclick="x()">Hi</div>''\<close>
    by code_simp
  moreover have "toLowerCase ''DIV'' \<notin> ALLOWED_TAGS"
    by code_simp
  ultimately show ?thesis
    by (simp add: sanitizeHtml_try_htmlDocument)
qed



text \<open>
  C3, which the code does not meet. For the input
  \<^verbatim>\<open><span style="color:red" onclick="x()">Hi</span>\<close> the sanitizer returns the \<^verbatim>\<open>span\<close> with
  both attributes, \<^verbatim>\<open>style\<close> and \<^verbatim>\<open>onclick\<close>; \<^verbatim>\<open>span\<close> is an allowed tag and \<^verbatim>\<open>onclick\<close>
  starts with \<^verbatim>\<open>on\<close>. Whatever the serializer, what is serialized is the element with
  these attributes.
\<close>

theorem sanitizeHtml_keeps_event_handler_and_style:
  \<open>sanitizeHtml examplePlatform ''<span style="color:red" onclick="x()">Hi</span>''
     = Some ''<span style="color:red" onclick="x()">Hi</span>''
   \<and> sanitizeHtml_try
        (pf\<lparr>parseFromString := \<lambda>i ty.
              Inr (htmlDocument inHead [Element ''SPAN'' [(''style'', v), (''onclick'', w)] ts])\<rparr>)
        input
       = Some (serializeFragment pf [Element ''SPAN'' [(''style'', v), (''onclick'', w)] ts])
   \<and> toLowerCase ''SPAN'' \<in> ALLOWED_TAGS
   \<and> startsWith (toLowerCase ''onclick'') ''on''\<close>
proof -
  have \<open>sanitizeHtml examplePlatform ''<span style="color:red" onclick="x()">Hi</span>''
     = Some ''<span style="color:red" onclick="x()">Hi</span>''\<close>
    by code_simp
  moreover have "toLowerCase ''SPAN'' \<in> ALLOWED_TAGS"
    "startsWith (toLowerCase ''onclick'') ''on''"
    by code_simp+
  ultimately show ?thesis
    by (simp add: sanitizeHtml_try_htmlDocument)
qed

text \<open>
  C4, which the code does not meet. For the input
  \<^verbatim>\<open><a href="javascript:alert(1)">click</a>\<close> the sanitizer returns the anchor with that
  \<^verbatim>\<open>href\<close> and with neither \<^verbatim>\<open>target\<close> nor \<^verbatim>\<open>rel\<close>; the \<^verbatim>\<open>href\<close> starts with none of
  the five permitted prefixes. Whatever the serializer, what is serialized is the
  anchor with the one attribute.
\<close>

theorem sanitizeHtml_keeps_unsafe_link:
  \<open>sanitizeHtml examplePlatform ''<a href="javascript:alert(1)">click</a>''
     = Some ''<a href="javascript:alert(1)">click</a>''
   \<and> sanitizeHtml_try
        (pf\<lparr>parseFromString := \<lambda>i ty.
              Inr (htmlDocument inHead [Element ''A'' [(''href'', ''javascript:alert(1)'')] ts])\<rparr>)
        input
       = Some (serializeFragment pf [Element ''A'' [(''href'', ''javascript:alert(1)'')] ts])
   \<and> toLowerCase ''A'' \<in> ALLOWED_TAGS
   \<and> \<not> startsWith (trim ''javascript:alert(1)'') ''http://''
   \<and> \<not> startsWith (trim ''javascript:alert(1)'') ''https://''
   \<and> \<not> startsWith (trim ''javascript:alert(1)'') ''mailto:''
   \<and> \<not> startsWith (trim ''javascript:alert(1)'') ''/''
   \<and> \<not> startsWith (trim ''javascript:alert(1)'') ''#''\<close>
proof -
  have \<open>sanitizeHtml examplePlatform ''<a href="javascript:alert(1)">click</a>''
     = Some ''<a href="javascript:alert(1)">click</a>''\<close>
    by code_simp
  moreover have "toLowerCase ''A'' \<in> ALLOWED_TAGS"
    "\<not> startsWith (trim ''javascript:alert(1)'') ''http://''"
    "\<not> startsWith (trim ''javascript:alert(1)'') ''https://''"
    "\<not> startsWith (trim ''javascript:alert(1)'') ''mailto:''"
    "\<not> startsWith (trim ''javascript:alert(1)'') ''/''"
    "\<not> startsWith (trim ''javascript:alert(1)'') ''#''"
    by code_simp+
  ultimately show ?thesis
    by (simp add: sanitizeHtml_try_htmlDocument)
qed

text \<open>
  C8, which the code does not meet. For the input \<^verbatim>\<open><p>Hi<!-- note --></p>\<close> the
  sanitizer returns the paragraph with the comment in it. Whatever the serializer, and
  whatever the text of the comment, what is serialized holds the comment node.
\<close>

theorem sanitizeHtml_keeps_comment:
  \<open>sanitizeHtml examplePlatform ''<p>Hi<!-- note --></p>'' = Some ''<p>Hi<!-- note --></p>''
   \<and> sanitizeHtml_try
        (pf\<lparr>parseFromString := \<lambda>i ty.
              Inr (htmlDocument inHead [Element ''P'' [] [Text ''Hi'', Comment d]])\<rparr>)
        input
       = Some (serializeFragment pf [Element ''P'' [] [Text ''Hi'', Comment d]])\<close>
proof -
  have \<open>sanitizeHtml examplePlatform ''<p>Hi<!-- note --></p>'' = Some ''<p>Hi<!-- note --></p>''\<close>
    by code_simp
  then show ?thesis
    by (simp add: sanitizeHtml_try_htmlDocument)
qed



section \<open>Properties of the component\<close>

text \<open>
  C10. The component reads a missing child as the empty string. For every content it
  returns one element: when the content looks like markup, the \<^verbatim>\<open>div\<close> whose inner HTML
  is the output of the sanitizer for the content; otherwise the \<^verbatim>\<open>div\<close> of the plain
  text fallback, whose children are text and never markup.
\<close>

theorem RichText_spec:
  "RichText pf None cls = RichText pf (Some []) cls
   \<and> RichText pf (Some c) cls =
       (if looksLikeHtml c
        then map_option (\<lambda>safe. Div cls (DangerouslySetInnerHTML safe)) (sanitizeHtml pf c)
        else Some (Div cls (formatPlain c)))
   \<and> (\<exists>r. RichText pf children cls = Some r)
   \<and> (\<forall>markup. formatPlain c \<noteq> DangerouslySetInnerHTML markup)"
  by (auto simp: RichText_def formatPlain_def Let_def sanitizeHtml_body)

theorem RichText_spec_witness:
  \<open>RichText examplePlatform (Some ''<p>x</p>'') None
     = Some (Div None (DangerouslySetInnerHTML ''<p>x</p>''))
   \<and> RichText examplePlatform (Some ''1 < 2 and <b'') None
     = Some (Div None (TextChild ''1 < 2 and <b''))
   \<and> RichText examplePlatform None None = Some (Div None (TextChild []))\<close>
proof -
  have \<open>looksLikeHtml ''<p>x</p>''\<close> \<open>\<not> looksLikeHtml ''1 < 2 and <b''\<close> \<open>\<not> looksLikeHtml []\<close>
    by code_simp+
  moreover have \<open>sanitizeHtml examplePlatform ''<p>x</p>'' = Some ''<p>x</p>''\<close>
    by code_simp
  moreover have \<open>formatPlain ''1 < 2 and <b'' = TextChild ''1 < 2 and <b''\<close>
    \<open>formatPlain [] = TextChild []\<close>
    by code_simp+
  ultimately show ?thesis
    using RichText_spec[of examplePlatform None \<open>''<p>x</p>''\<close>]
      RichText_spec[of examplePlatform None \<open>''1 < 2 and <b''\<close>]
      RichText_spec[of examplePlatform None \<open>[]\<close>]
    by simp
qed

end
